theory Spec2Isabelle
  imports Main "HOL-Library.AList"
begin

section \<open>The reaction cleaner: data model\<close>

text \<open>
  The program is a single-process chat bot (\<^verbatim>\<open>src/index.ts\<close>). Its state is the in-memory
  object \<^verbatim>\<open>cleaningTasks\<close> (message URL to interval timer), the interval timers the runtime
  keeps alive, and the table \<^verbatim>\<open>tracked_messages\<close> of the SQLite database. Everything the
  program awaits from outside (the chat platform, the URL parser of the runtime, failures
  of a database statement) is a field of the record \<open>platform\<close>, fixed for the duration of
  one command.
\<close>

datatype 'a promise = Resolved 'a | Rejected string

text \<open>The members of \<^verbatim>\<open>ChannelType\<close> of the chat library.\<close>

datatype ChannelType =
    GuildText | DM | GuildVoice | GroupDM | GuildCategory | GuildAnnouncement
  | AnnouncementThread | PublicThread | PrivateThread | GuildStageVoice
  | GuildDirectory | GuildForum | GuildMedia

text \<open>A live message handle, as \<^verbatim>\<open>messages.fetch\<close> resolves it.\<close>

record Message =
  in_channel :: string
  snowflake :: string

text \<open>The result of \<^verbatim>\<open>parseMessageUrl\<close>.\<close>

record ParsedUrl =
  channelId :: string
  messageId :: string

text \<open>A row of \<^verbatim>\<open>tracked_messages\<close>; \<^verbatim>\<open>message_url\<close> is the primary key.\<close>

record TrackedMessage =
  message_url :: string
  channel_id :: string
  message_id :: string
  added_at :: string

text \<open>
  \<^verbatim>\<open>setInterval\<close> returns a fresh \<^verbatim>\<open>Timeout\<close> object; its identity is a number here. A
  live interval timer holds the two variables its callback closes over.
\<close>

type_synonym Timeout = nat

record Interval =
  handle :: Timeout
  bound_url :: string
  bound_message :: Message

record platform =
  URL_pathname :: "string \<Rightarrow> string option"
    \<comment> \<open>\<^verbatim>\<open>new URL(s).pathname\<close>; \<open>None\<close> when the constructor throws\<close>
  channels_fetch :: "string \<Rightarrow> ChannelType option promise"
    \<comment> \<open>\<^verbatim>\<open>client.channels.fetch(id)\<close>: rejects, resolves to null, or to a channel of a type\<close>
  messages_fetch :: "string \<Rightarrow> string \<Rightarrow> Message promise"
    \<comment> \<open>\<^verbatim>\<open>channel.messages.fetch(id)\<close> in the channel of the first argument\<close>
  reactions_removeAll :: "Message \<Rightarrow> unit promise"
  insert_throws :: "string \<Rightarrow> bool"
  delete_throws :: "string \<Rightarrow> bool"
  select_throws :: bool
  clear_throws :: bool
  CURRENT_TIMESTAMP :: string

record bot =
  cleaningTasks :: "(string \<times> Timeout) list"
    \<comment> \<open>the object \<^verbatim>\<open>cleaningTasks\<close>, keys in insertion order\<close>
  intervals :: "Interval list"
    \<comment> \<open>the interval timers the runtime will keep firing\<close>
  next_timeout :: Timeout
  tracked_messages :: "TrackedMessage list"
  db_open :: bool

section \<open>The database statements\<close>

text \<open>
  Each prepared statement returns \<open>None\<close> when \<^verbatim>\<open>run\<close>/\<^verbatim>\<open>all\<close> throws: the connection is
  closed, or the platform makes this statement fail.
\<close>

definition insertMessage_run :: "platform \<Rightarrow> bot \<Rightarrow> string \<Rightarrow> string \<Rightarrow> string \<Rightarrow> bot option" where
  "insertMessage_run env s url cid mid =
     (if \<not> db_open s \<or> insert_throws env url then None
      else if url \<in> set (map message_url (tracked_messages s)) then Some s
      else Some (s\<lparr>tracked_messages := tracked_messages s @
             [\<lparr>message_url = url, channel_id = cid, message_id = mid,
               added_at = CURRENT_TIMESTAMP env\<rparr>]\<rparr>))"

definition deleteMessage_run :: "platform \<Rightarrow> bot \<Rightarrow> string \<Rightarrow> bot option" where
  "deleteMessage_run env s url =
     (if \<not> db_open s \<or> delete_throws env url then None
      else Some (s\<lparr>tracked_messages := filter (\<lambda>row. message_url row \<noteq> url) (tracked_messages s)\<rparr>))"

definition getAllMessages_all :: "platform \<Rightarrow> bot \<Rightarrow> TrackedMessage list option" where
  "getAllMessages_all env s =
     (if \<not> db_open s \<or> select_throws env then None else Some (tracked_messages s))"

definition clearAllMessages_run :: "platform \<Rightarrow> bot \<Rightarrow> bot option" where
  "clearAllMessages_run env s =
     (if \<not> db_open s \<or> clear_throws env then None else Some (s\<lparr>tracked_messages := []\<rparr>))"

section \<open>parseMessageUrl\<close>

text \<open>\<^verbatim>\<open>String.prototype.split\<close> with a one-character separator: \<^verbatim>\<open>"".split("/")\<close> is \<^verbatim>\<open>[""]\<close>.\<close>

fun js_split :: "char \<Rightarrow> string \<Rightarrow> string list" where
  "js_split sep [] = [[]]"
| "js_split sep (c # cs) =
     (if c = sep then [] # js_split sep cs
      else (case js_split sep cs of
              [] \<Rightarrow> [[c]]
            | part # parts \<Rightarrow> (c # part) # parts))"

definition parseMessageUrl :: "platform \<Rightarrow> string \<Rightarrow> ParsedUrl option" where
  "parseMessageUrl env messageUrl =
     (case URL_pathname env messageUrl of
        None \<Rightarrow> None
      | Some pathname \<Rightarrow>
          (let pathParts = filter (\<lambda>part. length part > 0) (js_split CHR ''/'' pathname) in
           if length pathParts \<ge> 4 \<and> pathParts ! 0 = ''channels'' then
             (let cid = pathParts ! 2; mid = pathParts ! 3 in
              if cid \<noteq> [] \<and> mid \<noteq> [] then Some \<lparr>channelId = cid, messageId = mid\<rparr>
              else None)
           else None))"

text \<open>
  A model of \<^verbatim>\<open>new URL(s).pathname\<close> on the absolute \<^verbatim>\<open>http\<close> and \<^verbatim>\<open>https\<close> references with
  a plain host and a path that has no query, fragment, dot segment or character to
  escape, and on strings with no scheme at all (the constructor throws). It is used at
  concrete references of these shapes only; the general theorems hold for every parser.
\<close>

fun strip_prefix :: "string \<Rightarrow> string \<Rightarrow> string option" where
  "strip_prefix [] s = Some s"
| "strip_prefix (p # ps) [] = None"
| "strip_prefix (p # ps) (c # cs) = (if p = c then strip_prefix ps cs else None)"

definition path_after_host :: "string \<Rightarrow> string option" where
  "path_after_host rest =
     (let host = takeWhile (\<lambda>c. c \<noteq> CHR ''/'') rest;
          path = dropWhile (\<lambda>c. c \<noteq> CHR ''/'') rest
      in if host = [] then None else Some (if path = [] then ''/'' else path))"

definition http_pathname :: "string \<Rightarrow> string option" where
  "http_pathname s =
     (case strip_prefix ''https://'' s of
        Some rest \<Rightarrow> path_after_host rest
      | None \<Rightarrow>
          (case strip_prefix ''http://'' s of
             Some rest \<Rightarrow> path_after_host rest
           | None \<Rightarrow> None))"

section \<open>startCleaning and stopCleaning\<close>

datatype start_error =
    ChannelNotFound
  | ForumChannel
  | UnsupportedChannelType ChannelType
  | MessageNotFound
  | AlreadyCleaning
  | Thrown string

text \<open>
  \<^verbatim>\<open>startCleaning\<close> resolves to \<^verbatim>\<open>{success: true, message}\<close> (\<open>Inr\<close>) or to
  \<^verbatim>\<open>{success: false, error}\<close> (\<open>Inl\<close>); a rejection of \<^verbatim>\<open>channels.fetch\<close> reaches the outer
  \<^verbatim>\<open>catch\<close>. The keys looked up in \<^verbatim>\<open>cleaningTasks\<close> are references that went through
  \<^verbatim>\<open>parseMessageUrl\<close>, so no inherited property of the object is ever read.
\<close>

definition targetChannel :: "ChannelType \<Rightarrow> start_error + ChannelType" where
  "targetChannel ty =
     (if ty = GuildText \<or> ty = GuildAnnouncement \<or> ty = GuildVoice then Inr ty
      else if ty = PublicThread \<or> ty = PrivateThread \<or> ty = AnnouncementThread then Inr ty
      else if ty = GuildForum then Inl ForumChannel
      else Inl (UnsupportedChannelType ty))"

definition startCleaning ::
  "platform \<Rightarrow> bot \<Rightarrow> string \<Rightarrow> string \<Rightarrow> string \<Rightarrow> (start_error + Message) \<times> bot" where
  "startCleaning env s messageUrl cid mid =
     (case channels_fetch env cid of
        Rejected error \<Rightarrow> (Inl (Thrown error), s)
      | Resolved None \<Rightarrow> (Inl ChannelNotFound, s)
      | Resolved (Some ty) \<Rightarrow>
          (case targetChannel ty of
             Inl unsupported \<Rightarrow> (Inl unsupported, s)
           | Inr target \<Rightarrow>
               (case messages_fetch env cid mid of
                  Rejected fetchError \<Rightarrow> (Inl MessageNotFound, s)
                | Resolved message \<Rightarrow>
                    if map_of (cleaningTasks s) messageUrl \<noteq> None
                    then (Inl AlreadyCleaning, s)
                    else
                      (Inr message,
                       s\<lparr>cleaningTasks :=
                           AList.update messageUrl (next_timeout s) (cleaningTasks s),
                         intervals := intervals s @
                           [\<lparr>handle = next_timeout s, bound_url = messageUrl,
                             bound_message = message\<rparr>],
                         next_timeout := Suc (next_timeout s)\<rparr>))))"

definition stopCleaning :: "bot \<Rightarrow> string \<Rightarrow> bool \<times> bot" where
  "stopCleaning s messageUrl =
     (case map_of (cleaningTasks s) messageUrl of
        Some t \<Rightarrow>
          (True,
           s\<lparr>intervals := filter (\<lambda>iv. handle iv \<noteq> t) (intervals s),
             cleaningTasks := AList.delete messageUrl (cleaningTasks s)\<rparr>)
      | None \<Rightarrow> (False, s))"

text \<open>One firing of a timer: the callback of \<^verbatim>\<open>setInterval\<close>, run by the runtime on a live handle.\<close>

datatype firing = Cleaned | CleanError string | NotScheduled

definition interval_callback :: "platform \<Rightarrow> bot \<Rightarrow> Interval \<Rightarrow> firing \<times> bot" where
  "interval_callback env s iv =
     (case reactions_removeAll env (bound_message iv) of
        Resolved u \<Rightarrow> (Cleaned, s)
      | Rejected cleanError \<Rightarrow> (CleanError cleanError, s))"

definition fire :: "platform \<Rightarrow> bot \<Rightarrow> Timeout \<Rightarrow> firing \<times> bot" where
  "fire env s t =
     (case find (\<lambda>iv. handle iv = t) (intervals s) of
        None \<Rightarrow> (NotScheduled, s)
      | Some iv \<Rightarrow> interval_callback env s iv)"

section \<open>restoreCleaningTasks\<close>

text \<open>
  The rows are read once; the loop runs over that snapshot. \<^verbatim>\<open>deleteMessage.run\<close> is not
  inside a \<^verbatim>\<open>try\<close> here, so a throwing statement ends the function where it stands.
\<close>

datatype completion = Completed | Aborted

fun restore_loop :: "platform \<Rightarrow> bot \<Rightarrow> TrackedMessage list \<Rightarrow> completion \<times> bot" where
  "restore_loop env s [] = (Completed, s)"
| "restore_loop env s (row # rows) =
     (case startCleaning env s (message_url row) (channel_id row) (message_id row) of
        (Inr message, s') \<Rightarrow> restore_loop env s' rows
      | (Inl error, s') \<Rightarrow>
          (case deleteMessage_run env s' (message_url row) of
             None \<Rightarrow> (Aborted, s')
           | Some s'' \<Rightarrow> restore_loop env s'' rows))"

definition restoreCleaningTasks :: "platform \<Rightarrow> bot \<Rightarrow> completion \<times> bot" where
  "restoreCleaningTasks env s =
     (case getAllMessages_all env s of
        None \<Rightarrow> (Aborted, s)
      | Some result \<Rightarrow> restore_loop env s result)"

section \<open>The command handlers\<close>

text \<open>
  The handlers receive \<^verbatim>\<open>urls\<close>, the references of the command after splitting and trimming.
  The body of each \<^verbatim>\<open>for\<close> loop is a function of its own that returns what the loop pushes
  to its reply lists.
\<close>

datatype enable_outcome =
    Started
  | AlreadyRunning
  | InvalidUrl
  | StartError start_error
  | DatabaseError

definition enable_url :: "platform \<Rightarrow> bot \<Rightarrow> string \<Rightarrow> enable_outcome \<times> bot" where
  "enable_url env s messageUrl =
     (case parseMessageUrl env messageUrl of
        None \<Rightarrow> (InvalidUrl, s)
      | Some parsed \<Rightarrow>
          (case startCleaning env s messageUrl (channelId parsed) (messageId parsed) of
             (Inr message, s') \<Rightarrow>
               (case insertMessage_run env s' messageUrl (channelId parsed) (messageId parsed) of
                  Some s'' \<Rightarrow> (Started, s'')
                | None \<Rightarrow> (DatabaseError, snd (stopCleaning s' messageUrl)))
           | (Inl error, s') \<Rightarrow>
               if error = AlreadyCleaning then (AlreadyRunning, s')
               else (StartError error, s')))"

fun enable_reaction_cleaning ::
  "platform \<Rightarrow> bot \<Rightarrow> string list \<Rightarrow> (string \<times> enable_outcome) list \<times> bot" where
  "enable_reaction_cleaning env s [] = ([], s)"
| "enable_reaction_cleaning env s (messageUrl # urls) =
     (case enable_url env s messageUrl of
        (outcome, s') \<Rightarrow>
          (case enable_reaction_cleaning env s' urls of
             (outcomes, s'') \<Rightarrow> ((messageUrl, outcome) # outcomes, s'')))"

datatype disable_outcome = Stopped | NotRunning | InvalidDisable

definition disable_url :: "platform \<Rightarrow> bot \<Rightarrow> string \<Rightarrow> disable_outcome \<times> bot" where
  "disable_url env s url =
     (case parseMessageUrl env url of
        None \<Rightarrow> (InvalidDisable, s)
      | Some parsed \<Rightarrow>
          (case stopCleaning s url of
             (True, s') \<Rightarrow>
               (case deleteMessage_run env s' url of
                  Some s'' \<Rightarrow> (Stopped, s'')
                | None \<Rightarrow> (Stopped, s'))
           | (False, s') \<Rightarrow> (NotRunning, s')))"

fun disable_reaction_cleaning ::
  "platform \<Rightarrow> bot \<Rightarrow> string list \<Rightarrow> (string \<times> disable_outcome) list \<times> bot" where
  "disable_reaction_cleaning env s [] = ([], s)"
| "disable_reaction_cleaning env s (url # urls) =
     (case disable_url env s url of
        (outcome, s') \<Rightarrow>
          (case disable_reaction_cleaning env s' urls of
             (outcomes, s'') \<Rightarrow> ((url, outcome) # outcomes, s'')))"

text \<open>\<^verbatim>\<open>for (const url of activeUrls) stopCleaning(url)\<close>, also the \<^verbatim>\<open>forEach\<close> of the signal handlers.\<close>

fun stop_each :: "bot \<Rightarrow> string list \<Rightarrow> bot" where
  "stop_each s [] = s"
| "stop_each s (url # urls) = stop_each (snd (stopCleaning s url)) urls"

datatype disable_all_reply = NoneCleaned | StoppedAll nat | ClearFailed nat

definition disable_all_cleaning :: "platform \<Rightarrow> bot \<Rightarrow> disable_all_reply \<times> bot" where
  "disable_all_cleaning env s =
     (let activeUrls = map fst (cleaningTasks s) in
      if length activeUrls = 0 then (NoneCleaned, s)
      else
        (let s' = stop_each s activeUrls in
         case clearAllMessages_run env s' of
           Some s'' \<Rightarrow> (StoppedAll (length activeUrls), s'')
         | None \<Rightarrow> (ClearFailed (length activeUrls), s')))"

text \<open>\<^verbatim>\<open>list-reaction-cleaning\<close>: each tracked row with its active flag; the state is only read.\<close>

definition list_reaction_cleaning ::
  "platform \<Rightarrow> bot \<Rightarrow> (string \<times> bool \<times> string) list option \<times> bot" where
  "list_reaction_cleaning env s =
     (case getAllMessages_all env s of
        None \<Rightarrow> (None, s)
      | Some trackedMessages \<Rightarrow>
          (Some (map (\<lambda>row. (message_url row,
                              map_of (cleaningTasks s) (message_url row) \<noteq> None,
                              added_at row)) trackedMessages), s))"

section \<open>Termination signals\<close>

definition on_SIGINT :: "bot \<Rightarrow> bot" where
  "on_SIGINT s = (stop_each s (map fst (cleaningTasks s)))\<lparr>db_open := False\<rparr>"

definition on_SIGTERM :: "bot \<Rightarrow> bot" where
  "on_SIGTERM s = (stop_each s (map fst (cleaningTasks s)))\<lparr>db_open := False\<rparr>"

section \<open>Well-formed states and concrete instances\<close>

text \<open>
  Every live interval timer is the one registered in \<^verbatim>\<open>cleaningTasks\<close> under the reference
  its callback holds, its handle was handed out before, and no two live timers share a
  handle. The state after start-up is such a state and every operation keeps it one.
\<close>

definition timers_registered :: "bot \<Rightarrow> bool" where
  "timers_registered s \<longleftrightarrow>
     list_all (\<lambda>iv. map_of (cleaningTasks s) (bound_url iv) = Some (handle iv)
                   \<and> handle iv < next_timeout s) (intervals s)
     \<and> distinct (map handle (intervals s))"

text \<open>Every entry of \<^verbatim>\<open>cleaningTasks\<close> has its row in \<^verbatim>\<open>tracked_messages\<close>.\<close>

definition tasks_backed :: "bot \<Rightarrow> bool" where
  "tasks_backed s \<longleftrightarrow>
     list_all (\<lambda>task. fst task \<in> set (map message_url (tracked_messages s))) (cleaningTasks s)"

text \<open>A platform on which every channel is a text channel and every call succeeds.\<close>

definition online :: platform where
  "online =
     \<lparr>URL_pathname = http_pathname,
      channels_fetch = (\<lambda>cid. Resolved (Some GuildText)),
      messages_fetch = (\<lambda>cid mid. Resolved \<lparr>in_channel = cid, snowflake = mid\<rparr>),
      reactions_removeAll = (\<lambda>message. Resolved ()),
      insert_throws = (\<lambda>url. False),
      delete_throws = (\<lambda>url. False),
      select_throws = False,
      clear_throws = False,
      CURRENT_TIMESTAMP = ''2025-01-01 00:00:00''\<rparr>"

text \<open>The state after start-up with an empty table, and with one stored row.\<close>

definition booted :: "TrackedMessage list \<Rightarrow> bot" where
  "booted rows =
     \<lparr>cleaningTasks = [], intervals = [], next_timeout = 0,
      tracked_messages = rows, db_open = True\<rparr>"

definition ref1 :: string where
  "ref1 = ''https://discord.com/channels/1/111/222''"

definition row1 :: TrackedMessage where
  "row1 = \<lparr>message_url = ref1, channel_id = ''111'', message_id = ''222'',
            added_at = ''2025-01-01 00:00:00''\<rparr>"

text \<open>The state once \<^verbatim>\<open>enable-reaction-cleaning\<close> has started cleaning \<open>ref1\<close> after start-up.\<close>

definition cleaning1 :: bot where
  "cleaning1 =
     \<lparr>cleaningTasks = [(ref1, 0)],
      intervals = [\<lparr>handle = 0, bound_url = ref1,
                     bound_message = \<lparr>in_channel = ''111'', snowflake = ''222''\<rparr>\<rparr>],
      next_timeout = Suc 0, tracked_messages = [row1], db_open = True\<rparr>"

text \<open>The pathname whose segments are \<open>segs\<close>: every segment after a slash.\<close>

definition path_of :: "string list \<Rightarrow> string" where
  "path_of segs = concat (map (\<lambda>seg. CHR ''/'' # seg) segs)"

section \<open>Runs of the bot without a stop\<close>

text \<open>
  What can happen to a running bot apart from the two disable commands and the
  termination signals: the runtime fires a timer, an enable or a list command arrives,
  the start-up restoration runs. Each event comes with the platform as it is at that
  moment.
\<close>

datatype event =
    Fires platform Timeout
  | EnableCommand platform "string list"
  | ListCommand platform
  | Restoration platform

fun step :: "bot \<Rightarrow> event \<Rightarrow> bot" where
  "step s (Fires env t) = snd (fire env s t)"
| "step s (EnableCommand env urls) = snd (enable_reaction_cleaning env s urls)"
| "step s (ListCommand env) = snd (list_reaction_cleaning env s)"
| "step s (Restoration env) = snd (restoreCleaningTasks env s)"

definition run :: "bot \<Rightarrow> event list \<Rightarrow> bot" where
  "run s events = foldl step s events"

section \<open>Facts about startCleaning\<close>

lemma targetChannel_Inr:
  "targetChannel ty = Inr ty' \<longleftrightarrow>
     ty' = ty \<and> ty \<in> {GuildText, GuildAnnouncement, GuildVoice,
                      PublicThread, PrivateThread, AnnouncementThread}"
  by (auto simp: targetChannel_def)

lemma startCleaning_Inr:
  "startCleaning env s url cid mid = (Inr message, s') \<longleftrightarrow>
     (\<exists>ty. channels_fetch env cid = Resolved (Some ty) \<and> targetChannel ty = Inr ty
        \<and> messages_fetch env cid mid = Resolved message
        \<and> map_of (cleaningTasks s) url = None
        \<and> s' = s\<lparr>cleaningTasks := AList.update url (next_timeout s) (cleaningTasks s),
                 intervals := intervals s @
                   [\<lparr>handle = next_timeout s, bound_url = url, bound_message = message\<rparr>],
                 next_timeout := Suc (next_timeout s)\<rparr>)"
  by (auto simp: startCleaning_def targetChannel_def
           split: promise.splits option.splits sum.splits if_splits)

lemma startCleaning_Inl:
  "startCleaning env s url cid mid = (Inl e, s') \<Longrightarrow> s' = s"
  by (auto simp: startCleaning_def split: promise.splits option.splits sum.splits if_splits)

lemma parse_ref1:
  "URL_pathname env = http_pathname \<Longrightarrow>
     parseMessageUrl env ref1 = Some \<lparr>channelId = ''111'', messageId = ''222''\<rparr>"
  by (simp add: parseMessageUrl_def ref1_def http_pathname_def path_after_host_def)

lemma enable_ref1_booted: "enable_url online (booted []) ref1 = (Started, cleaning1)"
proof -
  have "parseMessageUrl online ref1 = Some \<lparr>channelId = ''111'', messageId = ''222''\<rparr>"
    by (rule parse_ref1) (simp add: online_def)
  then show ?thesis
    by (simp add: enable_url_def)
       (simp add: startCleaning_def targetChannel_def insertMessage_run_def online_def
          booted_def row1_def cleaning1_def)
qed

lemma timers_registered_cleaning1: "timers_registered cleaning1"
  by (simp add: timers_registered_def cleaning1_def)

section \<open>The message of a reference does not resolve\<close>

text \<open>
  C7. When the reference parses, its channel resolves to a channel of a supported type and
  the fetch of the message is rejected, the body of the enable loop reports the error
  "message not found" and leaves the whole state as it was: no entry in \<^verbatim>\<open>cleaningTasks\<close>,
  no timer, no row in \<^verbatim>\<open>tracked_messages\<close>.
\<close>

theorem start_message_not_found:
  assumes "parseMessageUrl env ref = Some p"
    and "channels_fetch env (channelId p) = Resolved (Some ty)"
    and "ty \<in> {GuildText, GuildAnnouncement, GuildVoice,
                PublicThread, PrivateThread, AnnouncementThread}"
    and "messages_fetch env (channelId p) (messageId p) = Rejected fetchError"
  shows "enable_url env s ref = (StartError MessageNotFound, s)"
  using assms by (auto simp: enable_url_def startCleaning_def targetChannel_def)

theorem start_message_not_found_witness:
  "enable_url (online\<lparr>messages_fetch := \<lambda>cid mid. Rejected ''Unknown Message''\<rparr>)
       (booted []) ref1
     = (StartError MessageNotFound, booted [])"
proof -
  let ?env = "online\<lparr>messages_fetch := \<lambda>cid mid. Rejected ''Unknown Message''\<rparr>"
  have p: "parseMessageUrl ?env ref1 = Some \<lparr>channelId = ''111'', messageId = ''222''\<rparr>"
    by (rule parse_ref1) (simp add: online_def)
  show ?thesis
    using start_message_not_found [OF p, of GuildText "''Unknown Message''" "booted []"]
    by (simp add: online_def)
qed

section \<open>Facts about the task object\<close>

lemma update_absent: "map_of al k = None \<Longrightarrow> AList.update k v al = al @ [(k, v)]"
  by (induction al) (auto split: if_splits)

lemma filter_key_absent: "map_of al k = None \<Longrightarrow> filter (\<lambda>p. fst p = k) al = []"
  by (induction al) (auto split: if_splits)

lemma delete_absent: "map_of al k = None \<Longrightarrow> AList.delete k al = al"
  by (induction al) (auto split: if_splits)

lemma delete_update_absent:
  "map_of al k = None \<Longrightarrow> AList.delete k (AList.update k v al) = al"
  by (simp add: AList.delete_update_same delete_absent)

lemma stopCleaning_tasks:
  "cleaningTasks (snd (stopCleaning s url)) = AList.delete url (cleaningTasks s)"
  by (simp add: stopCleaning_def delete_absent split: option.splits)

lemma stopCleaning_intervals:
  "intervals (snd (stopCleaning s url)) =
     filter (\<lambda>iv. map_of (cleaningTasks s) url \<noteq> Some (handle iv)) (intervals s)"
  by (auto simp: stopCleaning_def split: option.splits intro: filter_cong)

lemma stopCleaning_frame:
  "tracked_messages (snd (stopCleaning s url)) = tracked_messages s"
  "db_open (snd (stopCleaning s url)) = db_open s"
  "next_timeout (snd (stopCleaning s url)) = next_timeout s"
  by (simp_all add: stopCleaning_def split: option.splits)

lemma stop_each_tasks:
  "cleaningTasks (stop_each s urls) = filter (\<lambda>p. fst p \<notin> set urls) (cleaningTasks s)"
  by (induction urls arbitrary: s) (auto simp: stopCleaning_tasks AList.delete_eq intro: filter_cong)

lemma stop_each_intervals:
  "intervals (stop_each s urls) =
     filter (\<lambda>iv. \<forall>url \<in> set urls. map_of (cleaningTasks s) url \<noteq> Some (handle iv)) (intervals s)"
proof (induction urls arbitrary: s)
  case Nil
  then show ?case by simp
next
  case (Cons url urls)
  have "filter (\<lambda>iv. map_of (cleaningTasks s) url \<noteq> Some (handle iv) \<and>
            (\<forall>u \<in> set urls. map_of (AList.delete url (cleaningTasks s)) u \<noteq> Some (handle iv)))
          (intervals s)
        = filter (\<lambda>iv. \<forall>u \<in> set (url # urls). map_of (cleaningTasks s) u \<noteq> Some (handle iv))
          (intervals s)"
    by (rule filter_cong [OF refl]) (auto simp: AList.delete_conv')
  then show ?case
    by (simp add: Cons.IH stopCleaning_tasks stopCleaning_intervals)
qed

lemma stop_each_frame:
  "tracked_messages (stop_each s urls) = tracked_messages s"
  "db_open (stop_each s urls) = db_open s"
  "next_timeout (stop_each s urls) = next_timeout s"
  by (induction urls arbitrary: s) (simp_all add: stopCleaning_frame)

lemma stop_each_all_tasks: "cleaningTasks (stop_each s (map fst (cleaningTasks s))) = []"
  by (simp add: stop_each_tasks filter_empty_conv)

lemma stop_each_all_intervals:
  assumes "timers_registered s"
  shows "intervals (stop_each s (map fst (cleaningTasks s))) = []"
proof -
  have "\<exists>url \<in> set (map fst (cleaningTasks s)). map_of (cleaningTasks s) url = Some (handle iv)"
    if "iv \<in> set (intervals s)" for iv
  proof -
    from assms that have reg: "map_of (cleaningTasks s) (bound_url iv) = Some (handle iv)"
      by (auto simp: timers_registered_def list_all_iff)
    then have "(bound_url iv, handle iv) \<in> set (cleaningTasks s)"
      by (rule map_of_SomeD)
    then have "bound_url iv \<in> set (map fst (cleaningTasks s))"
      by force
    with reg show ?thesis by blast
  qed
  then show ?thesis
    by (simp only: stop_each_intervals filter_empty_conv) blast
qed

section \<open>Well-formed states are kept\<close>

lemma timers_registered_booted: "timers_registered (booted rows)"
  by (simp add: timers_registered_def booted_def)

lemma timers_registered_tracked:
  "timers_registered (s\<lparr>tracked_messages := rows\<rparr>) = timers_registered s"
  by (simp add: timers_registered_def)

lemma timers_registered_db_open:
  "timers_registered (s\<lparr>db_open := b\<rparr>) = timers_registered s"
  by (simp add: timers_registered_def)

lemma timers_registered_startCleaning:
  assumes "timers_registered s"
  shows "timers_registered (snd (startCleaning env s url cid mid))"
proof (cases "fst (startCleaning env s url cid mid)")
  case (Inl e)
  then have "snd (startCleaning env s url cid mid) = s"
    by (metis startCleaning_Inl prod.collapse)
  with assms show ?thesis by simp
next
  case (Inr message)
  then have "startCleaning env s url cid mid = (Inr message, snd (startCleaning env s url cid mid))"
    by (metis prod.collapse)
  then have absent: "map_of (cleaningTasks s) url = None"
    and s': "snd (startCleaning env s url cid mid) =
           s\<lparr>cleaningTasks := AList.update url (next_timeout s) (cleaningTasks s),
             intervals := intervals s @
               [\<lparr>handle = next_timeout s, bound_url = url, bound_message = message\<rparr>],
             next_timeout := Suc (next_timeout s)\<rparr>"
    by (auto simp: startCleaning_Inr)
  from assms absent show ?thesis
    unfolding s' timers_registered_def list_all_iff
    by (auto simp: AList.update_conv')
qed

lemma timers_registered_stopCleaning:
  assumes "timers_registered s"
  shows "timers_registered (snd (stopCleaning s url))"
  using assms
  unfolding timers_registered_def list_all_iff stopCleaning_tasks stopCleaning_intervals
    stopCleaning_frame
  by (auto simp: AList.delete_conv' distinct_map_filter)

lemma timers_registered_insert:
  "insertMessage_run env s url cid mid = Some s' \<Longrightarrow> timers_registered s' = timers_registered s"
  by (auto simp: insertMessage_run_def timers_registered_def split: if_splits)

lemma timers_registered_delete:
  "deleteMessage_run env s url = Some s' \<Longrightarrow> timers_registered s' = timers_registered s"
  by (auto simp: deleteMessage_run_def timers_registered_def split: if_splits)

lemma timers_registered_enable_url:
  assumes "timers_registered s"
  shows "timers_registered (snd (enable_url env s url))"
proof (cases "parseMessageUrl env url")
  case None
  with assms show ?thesis by (simp add: enable_url_def)
next
  case (Some p)
  let ?r = "startCleaning env s url (channelId p) (messageId p)"
  have reg: "timers_registered (snd ?r)"
    using assms by (rule timers_registered_startCleaning)
  show ?thesis
    using reg timers_registered_stopCleaning [OF reg, of url] Some
    by (auto simp: enable_url_def timers_registered_insert
             split: prod.splits sum.splits option.splits)
qed

lemma timers_registered_enable:
  "timers_registered s \<Longrightarrow> timers_registered (snd (enable_reaction_cleaning env s urls))"
proof (induction urls arbitrary: s)
  case Nil
  then show ?case by simp
next
  case (Cons url urls)
  from Cons.prems have "timers_registered (snd (enable_url env s url))"
    by (rule timers_registered_enable_url)
  then have "timers_registered (snd (enable_reaction_cleaning env (snd (enable_url env s url)) urls))"
    by (rule Cons.IH)
  then show ?case by (auto split: prod.splits)
qed

lemma timers_registered_restore_loop:
  "timers_registered s \<Longrightarrow> timers_registered (snd (restore_loop env s rows))"
proof (induction rows arbitrary: s)
  case Nil
  then show ?case by simp
next
  case (Cons row rows)
  let ?r = "startCleaning env s (message_url row) (channel_id row) (message_id row)"
  have reg: "timers_registered (snd ?r)"
    using Cons.prems by (rule timers_registered_startCleaning)
  show ?case
  proof (cases ?r)
    case (Pair res s')
    with reg have s': "timers_registered s'" by simp
    show ?thesis
    proof (cases res)
      case (Inr message)
      with Pair s' Cons.IH show ?thesis by simp
    next
      case (Inl e)
      show ?thesis
      proof (cases "deleteMessage_run env s' (message_url row)")
        case None
        with Pair Inl s' show ?thesis by simp
      next
        case (Some s'')
        with s' have "timers_registered s''" by (simp add: timers_registered_delete)
        with Pair Inl Some Cons.IH show ?thesis by simp
      qed
    qed
  qed
qed

lemma timers_registered_restore:
  "timers_registered s \<Longrightarrow> timers_registered (snd (restoreCleaningTasks env s))"
  by (simp add: restoreCleaningTasks_def timers_registered_restore_loop split: option.splits)

lemma timers_registered_disable_url:
  assumes "timers_registered s"
  shows "timers_registered (snd (disable_url env s url))"
proof -
  have reg: "timers_registered (snd (stopCleaning s url))"
    using assms by (rule timers_registered_stopCleaning)
  then show ?thesis
    using assms
    by (auto simp: disable_url_def timers_registered_delete
             split: option.splits prod.splits bool.splits)
qed

lemma timers_registered_stop_each:
  "timers_registered s \<Longrightarrow> timers_registered (stop_each s urls)"
  by (induction urls arbitrary: s) (simp_all add: timers_registered_stopCleaning)

lemma timers_registered_disable_all:
  "timers_registered s \<Longrightarrow> timers_registered (snd (disable_all_cleaning env s))"
  by (auto simp: disable_all_cleaning_def Let_def clearAllMessages_run_def
        timers_registered_tracked timers_registered_stop_each split: option.splits if_splits)

section \<open>A failed insert rolls the task back\<close>

text \<open>
  C5. When \<^verbatim>\<open>startCleaning\<close> succeeded for a reference and the insert into
  \<^verbatim>\<open>tracked_messages\<close> then throws, the loop body reports the database error, and the state
  it leaves has the same \<^verbatim>\<open>cleaningTasks\<close> as before the call, with no entry for the
  reference, no live timer with the handle just handed out, and the same rows. In a
  well-formed state the live timers are exactly those from before the call, and when
  every task had its row before the call, every task has its row after it.
\<close>

theorem persistence_failure_rolls_back:
  assumes "parseMessageUrl env ref = Some p"
    and "startCleaning env s ref (channelId p) (messageId p) = (Inr message, s1)"
    and "insertMessage_run env s1 ref (channelId p) (messageId p) = None"
  shows "fst (enable_url env s ref) = DatabaseError
       \<and> cleaningTasks (snd (enable_url env s ref)) = cleaningTasks s
       \<and> map_of (cleaningTasks (snd (enable_url env s ref))) ref = None
       \<and> filter (\<lambda>iv. handle iv = next_timeout s) (intervals (snd (enable_url env s ref))) = []
       \<and> tracked_messages (snd (enable_url env s ref)) = tracked_messages s
       \<and> (timers_registered s \<longrightarrow> intervals (snd (enable_url env s ref)) = intervals s)
       \<and> (tasks_backed s \<longrightarrow> tasks_backed (snd (enable_url env s ref)))"
proof -
  from assms(2) have absent: "map_of (cleaningTasks s) ref = None"
    and s1: "s1 = s\<lparr>cleaningTasks := AList.update ref (next_timeout s) (cleaningTasks s),
                    intervals := intervals s @
                      [\<lparr>handle = next_timeout s, bound_url = ref, bound_message = message\<rparr>],
                    next_timeout := Suc (next_timeout s)\<rparr>"
    by (auto simp: startCleaning_Inr)
  have res: "enable_url env s ref = (DatabaseError, snd (stopCleaning s1 ref))"
    using assms by (simp add: enable_url_def)
  have tasks: "cleaningTasks (snd (stopCleaning s1 ref)) = cleaningTasks s"
    by (simp add: stopCleaning_tasks s1 delete_update_absent absent)
  have ivs: "intervals (snd (stopCleaning s1 ref))
               = filter (\<lambda>iv. handle iv \<noteq> next_timeout s) (intervals s)"
    by (simp add: stopCleaning_intervals s1 AList.update_conv' eq_commute)
  have rows: "tracked_messages (snd (stopCleaning s1 ref)) = tracked_messages s"
    by (simp add: stopCleaning_frame s1)
  have old: "filter (\<lambda>iv. handle iv \<noteq> next_timeout s) (intervals s) = intervals s"
    if "timers_registered s"
    using that by (auto simp: timers_registered_def list_all_iff filter_id_conv)
  show ?thesis
    by (simp add: res tasks ivs rows absent old tasks_backed_def)
qed

theorem persistence_failure_rolls_back_witness:
  "fst (enable_url (online\<lparr>insert_throws := \<lambda>url. True\<rparr>) (booted []) ref1) = DatabaseError
   \<and> cleaningTasks (snd (enable_url (online\<lparr>insert_throws := \<lambda>url. True\<rparr>) (booted []) ref1)) = []
   \<and> intervals (snd (enable_url (online\<lparr>insert_throws := \<lambda>url. True\<rparr>) (booted []) ref1)) = []
   \<and> tracked_messages (snd (enable_url (online\<lparr>insert_throws := \<lambda>url. True\<rparr>) (booted []) ref1)) = []"
proof -
  let ?env = "online\<lparr>insert_throws := \<lambda>url. True\<rparr>"
  let ?s1 = "\<lparr>cleaningTasks = [(ref1, 0)],
              intervals = [\<lparr>handle = 0, bound_url = ref1,
                             bound_message = \<lparr>in_channel = ''111'', snowflake = ''222''\<rparr>\<rparr>],
              next_timeout = Suc 0, tracked_messages = [], db_open = True\<rparr>"
  have p: "parseMessageUrl ?env ref1 = Some \<lparr>channelId = ''111'', messageId = ''222''\<rparr>"
    by (rule parse_ref1) (simp add: online_def)
  have st: "startCleaning ?env (booted []) ref1
              (channelId \<lparr>channelId = ''111'', messageId = ''222''\<rparr>)
              (messageId \<lparr>channelId = ''111'', messageId = ''222''\<rparr>)
            = (Inr \<lparr>in_channel = ''111'', snowflake = ''222''\<rparr>, ?s1)"
    by (simp add: startCleaning_def targetChannel_def online_def booted_def)
  have ins: "insertMessage_run ?env ?s1 ref1
              (channelId \<lparr>channelId = ''111'', messageId = ''222''\<rparr>)
              (messageId \<lparr>channelId = ''111'', messageId = ''222''\<rparr>) = None"
    by (simp add: insertMessage_run_def online_def)
  have "tasks_backed (booted [])"
    by (simp add: tasks_backed_def booted_def)
  then show ?thesis
    using persistence_failure_rolls_back [OF p st ins] timers_registered_booted [of "[]"]
    by (simp add: booted_def)
qed

section \<open>Starting twice\<close>

text \<open>
  C6. When the loop body reports that cleaning started for a reference, running it again
  on the same reference, with the platform unchanged, reports "already cleaning" and
  changes nothing; \<^verbatim>\<open>cleaningTasks\<close> then holds exactly one entry for the reference and,
  from a well-formed state, exactly one live timer is bound to it.
\<close>

theorem start_twice_already_active:
  assumes "enable_url env s ref = (Started, s1)"
  shows "enable_url env s1 ref = (AlreadyRunning, s1)
       \<and> length (filter (\<lambda>task. fst task = ref) (cleaningTasks s1)) = 1
       \<and> (timers_registered s \<longrightarrow>
            length (filter (\<lambda>iv. bound_url iv = ref) (intervals s1)) = 1)"
proof -
  from assms obtain p message s' where p: "parseMessageUrl env ref = Some p"
    and st: "startCleaning env s ref (channelId p) (messageId p) = (Inr message, s')"
    and ins: "insertMessage_run env s' ref (channelId p) (messageId p) = Some s1"
    by (auto simp: enable_url_def split: option.splits prod.splits sum.splits if_splits)
  from st obtain ty where ch: "channels_fetch env (channelId p) = Resolved (Some ty)"
    and ty: "targetChannel ty = Inr ty"
    and msg: "messages_fetch env (channelId p) (messageId p) = Resolved message"
    and absent: "map_of (cleaningTasks s) ref = None"
    and s': "s' = s\<lparr>cleaningTasks := AList.update ref (next_timeout s) (cleaningTasks s),
                    intervals := intervals s @
                      [\<lparr>handle = next_timeout s, bound_url = ref, bound_message = message\<rparr>],
                    next_timeout := Suc (next_timeout s)\<rparr>"
    by (auto simp: startCleaning_Inr)
  from ins have tasks1: "cleaningTasks s1 = cleaningTasks s'"
    and ivs1: "intervals s1 = intervals s'"
    by (auto simp: insertMessage_run_def split: if_splits)
  have present: "map_of (cleaningTasks s1) ref = Some (next_timeout s)"
    by (simp add: tasks1 s' AList.update_conv')
  have again: "startCleaning env s1 ref (channelId p) (messageId p) = (Inl AlreadyCleaning, s1)"
    by (simp add: startCleaning_def ch ty msg present)
  have one_task: "length (filter (\<lambda>task. fst task = ref) (cleaningTasks s1)) = 1"
    by (simp add: tasks1 s' update_absent [OF absent] filter_key_absent [OF absent])
  have one_timer: "length (filter (\<lambda>iv. bound_url iv = ref) (intervals s1)) = 1"
    if "timers_registered s"
  proof -
    from that absent have "filter (\<lambda>iv. bound_url iv = ref) (intervals s) = []"
      by (auto simp: timers_registered_def list_all_iff filter_empty_conv)
    then show ?thesis by (simp add: ivs1 s')
  qed
  show ?thesis
    by (simp add: enable_url_def p again one_task one_timer)
qed

theorem start_twice_already_active_witness:
  "enable_url online (snd (enable_url online (booted []) ref1)) ref1
     = (AlreadyRunning, snd (enable_url online (booted []) ref1))
   \<and> map fst (cleaningTasks (snd (enable_url online (booted []) ref1))) = [ref1]
   \<and> map bound_url (intervals (snd (enable_url online (booted []) ref1))) = [ref1]"
proof -
  let ?s1 = "\<lparr>cleaningTasks = [(ref1, 0)],
              intervals = [\<lparr>handle = 0, bound_url = ref1,
                             bound_message = \<lparr>in_channel = ''111'', snowflake = ''222''\<rparr>\<rparr>],
              next_timeout = Suc 0, tracked_messages = [row1], db_open = True\<rparr>"
  have p: "parseMessageUrl online ref1 = Some \<lparr>channelId = ''111'', messageId = ''222''\<rparr>"
    by (rule parse_ref1) (simp add: online_def)
  have first: "enable_url online (booted []) ref1 = (Started, ?s1)"
    by (simp add: enable_url_def p)
       (simp add: startCleaning_def targetChannel_def insertMessage_run_def online_def
          booted_def row1_def)
  show ?thesis
    using start_twice_already_active [OF first]
    by (simp add: first)
qed

section \<open>Termination signals leave the table alone\<close>

text \<open>
  C9. The handlers of SIGINT and SIGTERM empty \<^verbatim>\<open>cleaningTasks\<close>, close the database
  connection and leave the rows of \<^verbatim>\<open>tracked_messages\<close> exactly as they were; from a
  well-formed state no interval timer stays alive.
\<close>

theorem shutdown_keeps_registry:
  "tracked_messages (on_SIGINT s) = tracked_messages s
   \<and> cleaningTasks (on_SIGINT s) = []
   \<and> \<not> db_open (on_SIGINT s)
   \<and> (timers_registered s \<longrightarrow> intervals (on_SIGINT s) = [])
   \<and> tracked_messages (on_SIGTERM s) = tracked_messages s
   \<and> cleaningTasks (on_SIGTERM s) = []
   \<and> \<not> db_open (on_SIGTERM s)
   \<and> (timers_registered s \<longrightarrow> intervals (on_SIGTERM s) = [])"
  by (simp add: on_SIGINT_def on_SIGTERM_def stop_each_frame stop_each_all_tasks
        stop_each_all_intervals)

theorem shutdown_keeps_registry_witness:
  "tracked_messages (on_SIGINT (snd (enable_url online (booted []) ref1))) = [row1]
   \<and> cleaningTasks (on_SIGINT (snd (enable_url online (booted []) ref1))) = []
   \<and> intervals (on_SIGINT (snd (enable_url online (booted []) ref1))) = []
   \<and> intervals (on_SIGTERM (snd (enable_url online (booted []) ref1))) = []
   \<and> cleaningTasks (snd (enable_url online (booted []) ref1)) = [(ref1, 0)]"
proof -
  let ?s1 = "\<lparr>cleaningTasks = [(ref1, 0)],
              intervals = [\<lparr>handle = 0, bound_url = ref1,
                             bound_message = \<lparr>in_channel = ''111'', snowflake = ''222''\<rparr>\<rparr>],
              next_timeout = Suc 0, tracked_messages = [row1], db_open = True\<rparr>"
  have p: "parseMessageUrl online ref1 = Some \<lparr>channelId = ''111'', messageId = ''222''\<rparr>"
    by (rule parse_ref1) (simp add: online_def)
  have first: "enable_url online (booted []) ref1 = (Started, ?s1)"
    by (simp add: enable_url_def p)
       (simp add: startCleaning_def targetChannel_def insertMessage_run_def online_def
          booted_def row1_def)
  have reg: "timers_registered ?s1"
    by (simp add: timers_registered_def)
  show ?thesis
    using shutdown_keeps_registry [of ?s1] reg
    by (simp add: first)
qed

section \<open>Resolution comes before the duplicate check\<close>

text \<open>
  C10. For a reference that already has an entry in \<^verbatim>\<open>cleaningTasks\<close>, \<^verbatim>\<open>startCleaning\<close>
  answers "already cleaning" exactly when the channel resolves to a channel of a supported
  type and the message resolves. When the channel resolves to null the answer is "channel
  not found", when the fetch of the channel is rejected it is the thrown error, and when
  the channel is supported and the fetch of the message is rejected it is "message not
  found". The state is never changed.
\<close>

theorem resolution_before_duplicate_check:
  assumes "map_of (cleaningTasks s) ref = Some t"
  shows "(fst (startCleaning env s ref cid mid) = Inl AlreadyCleaning \<longleftrightarrow>
            (\<exists>ty message. channels_fetch env cid = Resolved (Some ty)
               \<and> ty \<in> {GuildText, GuildAnnouncement, GuildVoice,
                        PublicThread, PrivateThread, AnnouncementThread}
               \<and> messages_fetch env cid mid = Resolved message))
       \<and> (channels_fetch env cid = Resolved None \<longrightarrow>
            fst (startCleaning env s ref cid mid) = Inl ChannelNotFound)
       \<and> (\<forall>e. channels_fetch env cid = Rejected e \<longrightarrow>
            fst (startCleaning env s ref cid mid) = Inl (Thrown e))
       \<and> (\<forall>ty e. channels_fetch env cid = Resolved (Some ty)
              \<and> ty \<in> {GuildText, GuildAnnouncement, GuildVoice,
                       PublicThread, PrivateThread, AnnouncementThread}
              \<and> messages_fetch env cid mid = Rejected e \<longrightarrow>
            fst (startCleaning env s ref cid mid) = Inl MessageNotFound)
       \<and> snd (startCleaning env s ref cid mid) = s"
  using assms
  by (auto simp: startCleaning_def targetChannel_def
           split: promise.splits option.splits sum.splits if_splits)

theorem resolution_before_duplicate_check_witness:
  "fst (startCleaning online cleaning1 ref1 ''111'' ''222'') = Inl AlreadyCleaning
   \<and> fst (startCleaning (online\<lparr>channels_fetch := \<lambda>cid. Resolved None\<rparr>)
            cleaning1 ref1 ''111'' ''222'') = Inl ChannelNotFound
   \<and> fst (startCleaning (online\<lparr>channels_fetch := \<lambda>cid. Rejected ''Unknown Channel''\<rparr>)
            cleaning1 ref1 ''111'' ''222'') = Inl (Thrown ''Unknown Channel'')
   \<and> fst (startCleaning (online\<lparr>messages_fetch := \<lambda>cid mid. Rejected ''Unknown Message''\<rparr>)
            cleaning1 ref1 ''111'' ''222'') = Inl MessageNotFound"
proof -
  have task: "map_of (cleaningTasks cleaning1) ref1 = Some 0"
    by (simp add: cleaning1_def)
  show ?thesis
    using resolution_before_duplicate_check [OF task, of online "''111''" "''222''"]
      resolution_before_duplicate_check [OF task,
        of "online\<lparr>channels_fetch := \<lambda>cid. Resolved None\<rparr>" "''111''" "''222''"]
      resolution_before_duplicate_check [OF task,
        of "online\<lparr>channels_fetch := \<lambda>cid. Rejected ''Unknown Channel''\<rparr>" "''111''" "''222''"]
      resolution_before_duplicate_check [OF task,
        of "online\<lparr>messages_fetch := \<lambda>cid mid. Rejected ''Unknown Message''\<rparr>" "''111''" "''222''"]
    by (simp add: online_def)
qed

section \<open>Disabling one reference\<close>

text \<open>
  C2, as the code has it. For a reference that parses, the body of the disable loop
  reports "stopped" exactly when \<^verbatim>\<open>cleaningTasks\<close> had an entry for the reference. Then the
  entry is removed, no live timer keeps its handle, and the row of the reference is
  deleted when the statement does not throw. When there was no entry the state is left
  as it was: no delete is run, a stored row stays.
\<close>

theorem stop_only_when_task_present:
  assumes "parseMessageUrl env ref = Some p"
  shows "(fst (disable_url env s ref) = Stopped \<longleftrightarrow> map_of (cleaningTasks s) ref \<noteq> None)
       \<and> (fst (disable_url env s ref) = NotRunning \<longleftrightarrow> map_of (cleaningTasks s) ref = None)
       \<and> cleaningTasks (snd (disable_url env s ref)) = AList.delete ref (cleaningTasks s)
       \<and> map_of (cleaningTasks (snd (disable_url env s ref))) ref = None
       \<and> (\<forall>t. map_of (cleaningTasks s) ref = Some t \<longrightarrow>
            filter (\<lambda>iv. handle iv = t) (intervals (snd (disable_url env s ref))) = [])
       \<and> (map_of (cleaningTasks s) ref \<noteq> None \<and> db_open s \<and> \<not> delete_throws env ref \<longrightarrow>
            ref \<notin> set (map message_url (tracked_messages (snd (disable_url env s ref)))))
       \<and> (map_of (cleaningTasks s) ref = None \<longrightarrow> snd (disable_url env s ref) = s)"
proof (cases "map_of (cleaningTasks s) ref")
  case None
  then have "disable_url env s ref = (NotRunning, s)"
    using assms by (simp add: disable_url_def stopCleaning_def)
  with None show ?thesis
    by (simp add: delete_absent)
next
  case (Some t)
  let ?s' = "s\<lparr>intervals := filter (\<lambda>iv. handle iv \<noteq> t) (intervals s),
               cleaningTasks := AList.delete ref (cleaningTasks s)\<rparr>"
  have stop: "stopCleaning s ref = (True, ?s')"
    using Some by (simp add: stopCleaning_def)
  show ?thesis
  proof (cases "deleteMessage_run env ?s' ref")
    case None
    then have "disable_url env s ref = (Stopped, ?s')"
      using assms stop by (simp add: disable_url_def)
    moreover from None have "\<not> db_open s \<or> delete_throws env ref"
      by (simp add: deleteMessage_run_def split: if_splits)
    ultimately show ?thesis
      using Some by (auto simp: AList.delete_conv' filter_empty_conv)
  next
    case (Some s'')
    then have res: "disable_url env s ref = (Stopped, s'')"
      using assms stop by (simp add: disable_url_def)
    from Some have s'': "s'' = ?s'\<lparr>tracked_messages :=
        filter (\<lambda>row. message_url row \<noteq> ref) (tracked_messages s)\<rparr>"
      by (simp add: deleteMessage_run_def split: if_splits)
    show ?thesis
      using \<open>map_of (cleaningTasks s) ref = Some t\<close>
      by (auto simp: res s'' AList.delete_conv' filter_empty_conv)
  qed
qed

theorem stop_only_when_task_present_witness:
  "disable_url online cleaning1 ref1 = (Stopped, (booted [])\<lparr>next_timeout := Suc 0\<rparr>)
   \<and> snd (disable_url online (booted [row1]) ref1) = booted [row1]"
proof -
  have p: "parseMessageUrl online ref1 = Some \<lparr>channelId = ''111'', messageId = ''222''\<rparr>"
    by (rule parse_ref1) (simp add: online_def)
  have none: "map_of (cleaningTasks (booted [row1])) ref1 = None"
    by (simp add: booted_def)
  have "disable_url online cleaning1 ref1 = (Stopped, (booted [])\<lparr>next_timeout := Suc 0\<rparr>)"
    by (simp add: disable_url_def p)
       (simp add: stopCleaning_def deleteMessage_run_def cleaning1_def booted_def row1_def
          online_def)
  then show ?thesis
    using stop_only_when_task_present [OF p, of "booted [row1]"] none
    by simp
qed

text \<open>
  The claim as the specification words it fails where a row is stored for a reference
  that has no entry in \<^verbatim>\<open>cleaningTasks\<close>: nothing is deleted and the report is "not running",
  although the delete would have succeeded.
\<close>

theorem stop_leaves_record_without_task:
  "fst (disable_url online (booted [row1]) ref1) = NotRunning
   \<and> tracked_messages (snd (disable_url online (booted [row1]) ref1)) = [row1]
   \<and> message_url row1 = ref1
   \<and> deleteMessage_run online (booted [row1]) ref1 = Some (booted [])"
proof -
  have "parseMessageUrl online ref1 = Some \<lparr>channelId = ''111'', messageId = ''222''\<rparr>"
    by (rule parse_ref1) (simp add: online_def)
  then have "disable_url online (booted [row1]) ref1 = (NotRunning, booted [row1])"
    by (simp add: disable_url_def stopCleaning_def booted_def)
  then show ?thesis
    by (simp add: booted_def row1_def deleteMessage_run_def online_def)
qed

section \<open>Disabling everything\<close>

text \<open>
  C3, as the code has it. \<^verbatim>\<open>disable-all-cleaning\<close> always leaves \<^verbatim>\<open>cleaningTasks\<close> empty
  and, from a well-formed state, no live timer. It empties \<^verbatim>\<open>tracked_messages\<close> when
  \<^verbatim>\<open>cleaningTasks\<close> had an entry and the clearing statement does not throw. When
  \<^verbatim>\<open>cleaningTasks\<close> is empty the command returns at once and the state, stored rows
  included, is left as it was; so a second invocation right after the first changes
  nothing.
\<close>

theorem disable_all_clears_when_active:
  "cleaningTasks (snd (disable_all_cleaning env s)) = []
   \<and> (timers_registered s \<longrightarrow> intervals (snd (disable_all_cleaning env s)) = [])
   \<and> (cleaningTasks s \<noteq> [] \<and> db_open s \<and> \<not> clear_throws env \<longrightarrow>
        tracked_messages (snd (disable_all_cleaning env s)) = [])
   \<and> (cleaningTasks s = [] \<longrightarrow> disable_all_cleaning env s = (NoneCleaned, s))
   \<and> disable_all_cleaning env (snd (disable_all_cleaning env s))
        = (NoneCleaned, snd (disable_all_cleaning env s))"
proof -
  have tasks: "cleaningTasks (snd (disable_all_cleaning env s)) = []"
    by (auto simp: disable_all_cleaning_def Let_def clearAllMessages_run_def
          stop_each_all_tasks split: option.splits)
  have timers: "intervals (snd (disable_all_cleaning env s)) = []" if reg: "timers_registered s"
  proof (cases "cleaningTasks s = []")
    case True
    with reg have "intervals s = []"
      by (cases "intervals s") (simp_all add: timers_registered_def)
    with True show ?thesis by (simp add: disable_all_cleaning_def)
  next
    case False
    then show ?thesis
      by (auto simp: disable_all_cleaning_def Let_def clearAllMessages_run_def
            stop_each_all_intervals [OF reg] split: option.splits)
  qed
  have rows: "tracked_messages (snd (disable_all_cleaning env s)) = []"
    if "cleaningTasks s \<noteq> []" "db_open s" "\<not> clear_throws env"
    using that
    by (simp add: disable_all_cleaning_def Let_def clearAllMessages_run_def stop_each_frame)
  have idle: "disable_all_cleaning env s' = (NoneCleaned, s')" if "cleaningTasks s' = []" for s'
    using that by (simp add: disable_all_cleaning_def)
  show ?thesis
    using tasks timers rows idle [of s] idle [OF tasks] by blast
qed

theorem disable_all_clears_when_active_witness:
  "disable_all_cleaning online cleaning1 = (StoppedAll 1, (booted [])\<lparr>next_timeout := Suc 0\<rparr>)
   \<and> disable_all_cleaning online (snd (disable_all_cleaning online cleaning1))
       = (NoneCleaned, (booted [])\<lparr>next_timeout := Suc 0\<rparr>)
   \<and> disable_all_cleaning online (booted [row1]) = (NoneCleaned, booted [row1])"
proof -
  have first: "disable_all_cleaning online cleaning1
                 = (StoppedAll 1, (booted [])\<lparr>next_timeout := Suc 0\<rparr>)"
    by (simp add: disable_all_cleaning_def Let_def cleaning1_def stopCleaning_def
          clearAllMessages_run_def online_def booted_def)
  have idle: "cleaningTasks (booted [row1]) = []"
    by (simp add: booted_def)
  show ?thesis
    using disable_all_clears_when_active [of online cleaning1]
      disable_all_clears_when_active [of online "booted [row1]"] idle
    by (simp add: first)
qed

text \<open>
  The claim as the specification words it fails where a row is stored and
  \<^verbatim>\<open>cleaningTasks\<close> is empty: the command returns before the clearing statement, and the
  row is still stored, although the statement would have succeeded.
\<close>

theorem disable_all_keeps_rows_without_tasks:
  "cleaningTasks (booted [row1]) = []
   \<and> tracked_messages (snd (disable_all_cleaning online (booted [row1]))) = [row1]
   \<and> clearAllMessages_run online (booted [row1]) = Some (booted [])"
  by (simp add: disable_all_cleaning_def clearAllMessages_run_def booted_def online_def)

section \<open>Parsing a reference\<close>

lemma js_split_nonempty: "js_split sep s \<noteq> []"
  by (induction s) (auto split: list.splits)

lemma js_split_append:
  "sep \<notin> set seg \<Longrightarrow>
     js_split sep (seg @ r) = (seg @ hd (js_split sep r)) # tl (js_split sep r)"
proof (induction seg)
  case Nil
  then show ?case using js_split_nonempty [of sep r] by simp
next
  case (Cons c seg)
  then show ?case by auto
qed

lemma js_split_path_of:
  assumes "\<forall>seg \<in> set segs. seg \<noteq> [] \<and> CHR ''/'' \<notin> set seg"
  shows "hd (js_split CHR ''/'' (path_of segs)) = []
       \<and> filter (\<lambda>part. length part > 0) (js_split CHR ''/'' (path_of segs)) = segs"
  using assms
proof (induction segs)
  case Nil
  then show ?case by (simp add: path_of_def)
next
  case (Cons seg segs)
  let ?X = "js_split CHR ''/'' (path_of segs)"
  from Cons have hdX: "hd ?X = []"
    and rest: "filter (\<lambda>part. length part > 0) ?X = segs"
    and seg: "seg \<noteq> []" "CHR ''/'' \<notin> set seg"
    by simp_all
  have X: "?X = [] # tl ?X"
    using js_split_nonempty [of "CHR ''/''" "path_of segs"] hdX
    by (cases ?X) simp_all
  have "filter (\<lambda>part. length part > 0) (tl ?X) = segs"
    using rest by (subst (asm) X) simp
  moreover have "path_of (seg # segs) = CHR ''/'' # seg @ path_of segs"
    by (simp add: path_of_def)
  ultimately show ?case
    using seg hdX by (simp add: js_split_append)
qed

text \<open>
  C4, as the code has it. A reference the URL parser rejects is invalid. When the
  pathname of the reference is made of non-empty segments, the reference resolves exactly
  when there are at least four segments and the first is \<^verbatim>\<open>channels\<close>, and then to the
  third segment as channel and the fourth as message: the last two segments when there
  are four of them.
\<close>

theorem parseMessageUrl_third_and_fourth:
  "(URL_pathname env ref = None \<longrightarrow> parseMessageUrl env ref = None)
   \<and> (\<forall>segs. URL_pathname env ref = Some (path_of segs)
          \<and> (\<forall>seg \<in> set segs. seg \<noteq> [] \<and> CHR ''/'' \<notin> set seg) \<longrightarrow>
        parseMessageUrl env ref =
          (if 4 \<le> length segs \<and> segs ! 0 = ''channels''
           then Some \<lparr>channelId = segs ! 2, messageId = segs ! 3\<rparr> else None)
        \<and> (length segs = 4 \<and> segs ! 0 = ''channels'' \<longrightarrow>
             parseMessageUrl env ref =
               Some \<lparr>channelId = last (butlast segs), messageId = last segs\<rparr>))"
proof (intro conjI allI impI)
  assume "URL_pathname env ref = None"
  then show "parseMessageUrl env ref = None"
    by (simp add: parseMessageUrl_def)
next
  fix segs
  assume a: "URL_pathname env ref = Some (path_of segs)
             \<and> (\<forall>seg \<in> set segs. seg \<noteq> [] \<and> CHR ''/'' \<notin> set seg)"
  then have parts: "filter (\<lambda>part. length part > 0) (js_split CHR ''/'' (path_of segs)) = segs"
    using js_split_path_of [of segs] by simp
  have "segs ! i \<noteq> []" if "i < length segs" for i
    using a that by (meson nth_mem)
  then have ne: "segs ! 2 \<noteq> [] \<and> segs ! 3 \<noteq> []" if "4 \<le> length segs"
    using that by simp
  show general: "parseMessageUrl env ref =
          (if 4 \<le> length segs \<and> segs ! 0 = ''channels''
           then Some \<lparr>channelId = segs ! 2, messageId = segs ! 3\<rparr> else None)"
    using a ne by (simp add: parseMessageUrl_def parts Let_def del: length_greater_0_conv)
  assume four: "length segs = 4 \<and> segs ! 0 = ''channels''"
  then obtain a b c d where "segs = [a, b, c, d]"
    by (auto simp: length_Suc_conv numeral_eq_Suc)
  with four general
  show "parseMessageUrl env ref = Some \<lparr>channelId = last (butlast segs), messageId = last segs\<rparr>"
    by simp
qed

theorem parseMessageUrl_third_and_fourth_witness:
  "parseMessageUrl online ref1 = Some \<lparr>channelId = ''111'', messageId = ''222''\<rparr>
   \<and> parseMessageUrl online ''https://platform/containers/111/222'' = None
   \<and> parseMessageUrl online ''not-a-url'' = None"
proof -
  have p1: "URL_pathname online ref1 = Some (path_of [''channels'', ''1'', ''111'', ''222''])"
    by (simp add: online_def ref1_def http_pathname_def path_after_host_def path_of_def)
  have p2: "URL_pathname online ''https://platform/containers/111/222''
              = Some (path_of [''containers'', ''111'', ''222''])"
    by (simp add: online_def http_pathname_def path_after_host_def path_of_def)
  have p3: "URL_pathname online ''not-a-url'' = None"
    by (simp add: online_def http_pathname_def)
  show ?thesis
    using parseMessageUrl_third_and_fourth [of online ref1] p1
      parseMessageUrl_third_and_fourth [of online "''https://platform/containers/111/222''"] p2
      parseMessageUrl_third_and_fourth [of online "''not-a-url''"] p3
    by force
qed

text \<open>
  The claim as the specification words it fails on its own example, whose path has three
  segments and does not start with \<^verbatim>\<open>channels\<close>, and on a path of five segments, where the
  result is not the last two.
\<close>

theorem parseMessageUrl_not_last_two:
  "parseMessageUrl online ''https://platform/containers/111/222'' = None
   \<and> parseMessageUrl online ''https://discord.com/channels/1/111/222/333''
       = Some \<lparr>channelId = ''111'', messageId = ''222''\<rparr>
   \<and> parseMessageUrl online ''https://discord.com/channels/1/111/222/333''
       \<noteq> Some \<lparr>channelId = ''222'', messageId = ''333''\<rparr>"
  by (simp add: parseMessageUrl_def online_def http_pathname_def path_after_host_def)

section \<open>Firings and the life of a task\<close>

lemma fire_state: "snd (fire env s t) = s"
  by (simp add: fire_def interval_callback_def split: option.splits promise.splits)

lemma find_handle:
  assumes "distinct (map handle ivs)" and "iv \<in> set ivs"
  shows "find (\<lambda>iv'. handle iv' = handle iv) ivs = Some iv"
  using assms by (induction ivs) (auto simp: rev_image_eqI)

lemma fire_live:
  assumes "timers_registered s" and "iv \<in> set (intervals s)"
  shows "fire env s (handle iv) =
           (case reactions_removeAll env (bound_message iv) of
              Resolved u \<Rightarrow> (Cleaned, s)
            | Rejected cleanError \<Rightarrow> (CleanError cleanError, s))"
  using assms
  by (simp add: fire_def interval_callback_def find_handle timers_registered_def)

lemma list_state: "snd (list_reaction_cleaning env s) = s"
  by (simp add: list_reaction_cleaning_def split: option.splits)

lemma intervals_enable_url:
  assumes "timers_registered s"
  shows "set (intervals s) \<subseteq> set (intervals (snd (enable_url env s url)))"
proof (cases "parseMessageUrl env url")
  case None
  then show ?thesis by (simp add: enable_url_def)
next
  case (Some p)
  obtain res s' where st: "startCleaning env s url (channelId p) (messageId p) = (res, s')"
    by (cases "startCleaning env s url (channelId p) (messageId p)")
  show ?thesis
  proof (cases res)
    case (Inl e)
    with st have "s' = s" by (simp add: startCleaning_Inl)
    with Some st Inl show ?thesis by (simp add: enable_url_def)
  next
    case (Inr message)
    with st have s': "s' = s\<lparr>cleaningTasks := AList.update url (next_timeout s) (cleaningTasks s),
                    intervals := intervals s @
                      [\<lparr>handle = next_timeout s, bound_url = url, bound_message = message\<rparr>],
                    next_timeout := Suc (next_timeout s)\<rparr>"
      by (auto simp: startCleaning_Inr)
    show ?thesis
    proof (cases "insertMessage_run env s' url (channelId p) (messageId p)")
      case None
      have "intervals (snd (stopCleaning s' url))
              = filter (\<lambda>iv. handle iv \<noteq> next_timeout s) (intervals s)"
        by (simp add: stopCleaning_intervals s' AList.update_conv' eq_commute)
      also have "\<dots> = intervals s"
        using assms by (auto simp: timers_registered_def list_all_iff filter_id_conv)
      finally show ?thesis
        using Some st Inr None by (simp add: enable_url_def)
    next
      case (Some s'')
      then have "intervals s'' = intervals s'"
        by (auto simp: insertMessage_run_def split: if_splits)
      with \<open>parseMessageUrl env url = Some p\<close> st Inr Some show ?thesis
        by (auto simp: enable_url_def s')
    qed
  qed
qed

lemma intervals_enable:
  "timers_registered s \<Longrightarrow>
     set (intervals s) \<subseteq> set (intervals (snd (enable_reaction_cleaning env s urls)))"
proof (induction urls arbitrary: s)
  case Nil
  then show ?case by simp
next
  case (Cons url urls)
  let ?s' = "snd (enable_url env s url)"
  have "timers_registered ?s'"
    using Cons.prems by (rule timers_registered_enable_url)
  then have "set (intervals ?s') \<subseteq> set (intervals (snd (enable_reaction_cleaning env ?s' urls)))"
    by (rule Cons.IH)
  with intervals_enable_url [OF Cons.prems, of env url] show ?case
    by (auto split: prod.splits)
qed

lemma intervals_startCleaning:
  "set (intervals s) \<subseteq> set (intervals (snd (startCleaning env s url cid mid)))"
  by (auto simp: startCleaning_def split: promise.splits option.splits sum.splits)

lemma intervals_restore_loop:
  "set (intervals s) \<subseteq> set (intervals (snd (restore_loop env s rows)))"
proof (induction rows arbitrary: s)
  case Nil
  then show ?case by simp
next
  case (Cons row rows)
  obtain res s' where st:
    "startCleaning env s (message_url row) (channel_id row) (message_id row) = (res, s')"
    by (cases "startCleaning env s (message_url row) (channel_id row) (message_id row)")
  with intervals_startCleaning [of s env "message_url row" "channel_id row" "message_id row"]
  have sub: "set (intervals s) \<subseteq> set (intervals s')" by simp
  show ?case
  proof (cases res)
    case (Inr message)
    with st sub Cons.IH [of s'] show ?thesis by auto
  next
    case (Inl e)
    show ?thesis
    proof (cases "deleteMessage_run env s' (message_url row)")
      case None
      with st Inl sub show ?thesis by simp
    next
      case (Some s'')
      then have "intervals s'' = intervals s'"
        by (auto simp: deleteMessage_run_def split: if_splits)
      with st Inl Some sub Cons.IH [of s''] show ?thesis by auto
    qed
  qed
qed

lemma step_keeps:
  assumes "timers_registered s"
  shows "timers_registered (step s e) \<and> set (intervals s) \<subseteq> set (intervals (step s e))"
proof (cases e)
  case (Fires env t)
  with assms show ?thesis by (simp add: fire_state)
next
  case (EnableCommand env urls)
  with assms show ?thesis by (simp add: timers_registered_enable intervals_enable)
next
  case (ListCommand env)
  with assms show ?thesis by (simp add: list_state)
next
  case (Restoration env)
  with assms show ?thesis
    by (simp add: timers_registered_restore)
       (simp add: restoreCleaningTasks_def intervals_restore_loop split: option.splits)
qed

lemma run_keeps:
  "timers_registered s \<Longrightarrow>
     timers_registered (run s events) \<and> set (intervals s) \<subseteq> set (intervals (run s events))"
  unfolding run_def
proof (induction events arbitrary: s)
  case Nil
  then show ?case by simp
next
  case (Cons e events)
  from step_keeps [OF Cons.prems, of e] Cons.IH [of "step s e"] show ?case
    by auto
qed

text \<open>
  C8. In a well-formed state, a firing of a live timer whose call to remove the reactions
  is rejected reports the error and leaves the state as it was; no firing of any handle
  changes the state. Through every sequence of firings, enable commands, list commands
  and restorations, whatever the platform does at each of them, the timer stays alive
  and registered under its reference, and the runtime still finds it to fire.
\<close>

theorem failed_firing_keeps_task:
  assumes "timers_registered s" and "iv \<in> set (intervals s)"
  shows "(\<forall>env e. reactions_removeAll env (bound_message iv) = Rejected e \<longrightarrow>
            fire env s (handle iv) = (CleanError e, s))
       \<and> (\<forall>env t. snd (fire env s t) = s)
       \<and> iv \<in> set (intervals (run s events))
       \<and> map_of (cleaningTasks (run s events)) (bound_url iv) = Some (handle iv)
       \<and> (\<forall>env. fst (fire env (run s events) (handle iv)) \<noteq> NotScheduled)"
proof -
  from run_keeps [OF assms(1), of events]
  have reg: "timers_registered (run s events)"
    and live: "iv \<in> set (intervals (run s events))"
    using assms(2) by auto
  from reg live have "map_of (cleaningTasks (run s events)) (bound_url iv) = Some (handle iv)"
    by (auto simp: timers_registered_def list_all_iff)
  moreover have "fst (fire env (run s events) (handle iv)) \<noteq> NotScheduled" for env
    by (simp add: fire_live [OF reg live] split: promise.splits)
  ultimately show ?thesis
    using live by (simp add: fire_live [OF assms] fire_state)
qed

theorem failed_firing_keeps_task_witness:
  "fire (online\<lparr>reactions_removeAll := \<lambda>message. Rejected ''Missing Permissions''\<rparr>) cleaning1 0
     = (CleanError ''Missing Permissions'', cleaning1)
   \<and> map_of (cleaningTasks (run cleaning1
        [Fires (online\<lparr>reactions_removeAll := \<lambda>message. Rejected ''Missing Permissions''\<rparr>) 0,
         Fires (online\<lparr>reactions_removeAll := \<lambda>message. Rejected ''Missing Permissions''\<rparr>) 0,
         EnableCommand online [ref1]])) ref1 = Some 0"
proof -
  let ?iv = "\<lparr>handle = 0, bound_url = ref1,
              bound_message = \<lparr>in_channel = ''111'', snowflake = ''222''\<rparr>\<rparr>"
  let ?env = "online\<lparr>reactions_removeAll := \<lambda>message. Rejected ''Missing Permissions''\<rparr>"
  have live: "?iv \<in> set (intervals cleaning1)"
    by (simp add: cleaning1_def)
  have rejected: "reactions_removeAll ?env (bound_message ?iv) = Rejected ''Missing Permissions''"
    by simp
  show ?thesis
    using failed_firing_keeps_task [OF timers_registered_cleaning1 live,
        of "[Fires ?env 0, Fires ?env 0, EnableCommand online [ref1]]"] rejected
    by simp
qed

section \<open>Restoring twice\<close>

text \<open>
  C1. On a platform where everything resolves, the restoration after start-up on a table
  with one row starts the task and keeps the row. A second restoration right after it
  finds the task already cleaning, takes that for a failure and deletes the row, while
  the task goes on: the surviving rows differ between the first run and the second.
\<close>

theorem restore_twice_deletes_live_row:
  "restoreCleaningTasks online (booted [row1]) = (Completed, cleaning1)
   \<and> restoreCleaningTasks online cleaning1 = (Completed, cleaning1\<lparr>tracked_messages := []\<rparr>)
   \<and> tracked_messages cleaning1 = [row1]
   \<and> cleaningTasks cleaning1 = [(ref1, 0)]"
  by (simp add: restoreCleaningTasks_def getAllMessages_all_def startCleaning_def
        targetChannel_def deleteMessage_run_def online_def booted_def cleaning1_def row1_def)

end
